theory Spec2Isabelle
  imports Main "HOL-Library.AList"
begin

section \<open>JavaScript values\<close>

text \<open>
  The registry of \<^verbatim>\<open>src/share.ts\<close> stores values of type \<^verbatim>\<open>unknown\<close>. A value is a
  primitive or a reference to an object. Numbers other than NaN are represented by an
  integer (\<^verbatim>\<open>===\<close> identifies the two IEEE zeros, and so does this representation);
  NaN is a value of its own, since \<^verbatim>\<open>===\<close> treats it specially. Objects are compared by
  identity: \<open>ObjectPrototype\<close> is \<^verbatim>\<open>Object.prototype\<close>, \<open>Builtin n\<close> is the function stored
  in its property \<open>n\<close>, and \<open>Addr a\<close> is any other object or function, at address \<open>a\<close>.
\<close>

datatype objref = ObjectPrototype | Builtin string | Addr nat

datatype jsval = Undefined | Null | Bool bool | Num int | NaN | Str string | Obj objref

text \<open>\<^verbatim>\<open>a === b\<close>: NaN is not equal to anything, itself included.\<close>

definition strict_eq :: "jsval \<Rightarrow> jsval \<Rightarrow> bool" where
  "strict_eq a b = (a \<noteq> NaN \<and> b \<noteq> NaN \<and> a = b)"

text \<open>
  \<^verbatim>\<open>export const defaultHasChanged = (value, oldValue) =>
    value !== oldValue && (value === value || oldValue === oldValue);\<close>
\<close>

definition defaultHasChanged :: "jsval \<Rightarrow> jsval \<Rightarrow> bool" where
  "defaultHasChanged value oldValue =
     (\<not> strict_eq value oldValue \<and> (strict_eq value value \<or> strict_eq oldValue oldValue))"

section \<open>The object behind \<^verbatim>\<open>LitShare.values\<close>\<close>

text \<open>
  \<^verbatim>\<open>static readonly values: Record<string, unknown> = {}\<close> is an ordinary object: it has
  its own properties and a prototype, initially \<^verbatim>\<open>Object.prototype\<close>. The three operations
  the registry applies to it, \<^verbatim>\<open>key in values\<close>, \<^verbatim>\<open>values[key]\<close> and
  \<^verbatim>\<open>values[key] = value\<close>, all consult the prototype chain.

  Looking a key up along the chain finds a data property, or the accessor
  \<^verbatim>\<open>__proto__\<close> of \<^verbatim>\<open>Object.prototype\<close>, or nothing. The properties of
  \<^verbatim>\<open>Object.prototype\<close> are those of the language standard. What is found through any
  other object depends on that object alone, which the registry never changes: it is the
  parameter \<open>h\<close> of the model (such objects are taken to expose writable data properties
  only, besides the inherited accessor).
\<close>

datatype found = Data jsval | ProtoAccessor | Missing

type_synonym heap = "objref \<Rightarrow> string \<Rightarrow> found"

record jsobject =
  own :: "string \<rightharpoonup> jsval"
  proto :: jsval

definition object_prototype_keys :: "string list" where
  "object_prototype_keys =
     [''constructor'', ''hasOwnProperty'', ''isPrototypeOf'', ''propertyIsEnumerable'',
      ''toLocaleString'', ''toString'', ''valueOf'',
      ''__defineGetter__'', ''__defineSetter__'', ''__lookupGetter__'', ''__lookupSetter__'']"

fun chain_lookup :: "heap \<Rightarrow> jsval \<Rightarrow> string \<Rightarrow> found" where
  "chain_lookup h (Obj ObjectPrototype) key =
     (if key = ''__proto__'' then ProtoAccessor
      else if key \<in> set object_prototype_keys then Data (Obj (Builtin key))
      else Missing)"
| "chain_lookup h (Obj r) key = h r key"
| "chain_lookup h v key = Missing"

text \<open>\<^verbatim>\<open>key in obj\<close>\<close>

definition js_in :: "heap \<Rightarrow> string \<Rightarrow> jsobject \<Rightarrow> bool" where
  "js_in h key obj =
     (case own obj key of
        Some v \<Rightarrow> True
      | None \<Rightarrow> chain_lookup h (proto obj) key \<noteq> Missing)"

text \<open>\<^verbatim>\<open>obj[key]\<close>; the getter of \<^verbatim>\<open>__proto__\<close> returns the prototype of \<open>obj\<close>.\<close>

definition js_get :: "heap \<Rightarrow> jsobject \<Rightarrow> string \<Rightarrow> jsval" where
  "js_get h obj key =
     (case own obj key of
        Some v \<Rightarrow> v
      | None \<Rightarrow>
          (case chain_lookup h (proto obj) key of
             Data v \<Rightarrow> v
           | ProtoAccessor \<Rightarrow> proto obj
           | Missing \<Rightarrow> Undefined))"

text \<open>
  \<^verbatim>\<open>obj[key] = value\<close>. An own property is overwritten. Otherwise, if the chain leads to
  the setter of \<^verbatim>\<open>__proto__\<close>, the setter replaces the prototype of \<open>obj\<close> when the value
  is an object or \<^verbatim>\<open>null\<close> and does nothing for any other value; in every other case
  a new own property is created.
\<close>

definition is_object :: "jsval \<Rightarrow> bool" where
  "is_object v = (case v of Obj r \<Rightarrow> True | _ \<Rightarrow> False)"

definition js_put :: "heap \<Rightarrow> jsobject \<Rightarrow> string \<Rightarrow> jsval \<Rightarrow> jsobject" where
  "js_put h obj key value =
     (case own obj key of
        Some old \<Rightarrow> obj\<lparr>own := (own obj)(key \<mapsto> value)\<rparr>
      | None \<Rightarrow>
          (case chain_lookup h (proto obj) key of
             ProtoAccessor \<Rightarrow>
               (if is_object value \<or> value = Null then obj\<lparr>proto := value\<rparr> else obj)
           | Data v \<Rightarrow> obj\<lparr>own := (own obj)(key \<mapsto> value)\<rparr>
           | Missing \<Rightarrow> obj\<lparr>own := (own obj)(key \<mapsto> value)\<rparr>))"

text \<open>The object literal \<^verbatim>\<open>{}\<close>.\<close>

definition empty_object :: jsobject where
  "empty_object = \<lparr>own = Map.empty, proto = Obj ObjectPrototype\<rparr>"

section \<open>JavaScript \<^verbatim>\<open>Map\<close> and \<^verbatim>\<open>Set\<close>\<close>

text \<open>
  A \<^verbatim>\<open>Map\<close> iterates in insertion order, so it is an association list: \<^verbatim>\<open>set\<close> on a
  present key keeps the key's position, on a new key it appends.
\<close>

definition Map_get :: "('k \<times> 'v) list \<Rightarrow> 'k \<Rightarrow> 'v option" where
  "Map_get m k = map_of m k"

definition Map_has :: "('k \<times> 'v) list \<Rightarrow> 'k \<Rightarrow> bool" where
  "Map_has m k = (map_of m k \<noteq> None)"

definition Map_set :: "('k \<times> 'v) list \<Rightarrow> 'k \<Rightarrow> 'v \<Rightarrow> ('k \<times> 'v) list" where
  "Map_set m k v = AList.update k v m"

definition Map_delete :: "('k \<times> 'v) list \<Rightarrow> 'k \<Rightarrow> ('k \<times> 'v) list" where
  "Map_delete m k = AList.delete k m"

text \<open>
  A \<^verbatim>\<open>Set\<close> is iterated while it changes: the loop of \<^verbatim>\<open>set\<close> over the listeners
  runs code that may add and delete listeners. The language defines that iteration on
  the list of the set's slots: \<^verbatim>\<open>add\<close> of an absent element appends a slot, \<^verbatim>\<open>delete\<close>
  empties the element's slot and leaves it in place, and the iterator holds an index into
  the list and skips empty slots. So a \<^verbatim>\<open>Set\<close> is such a list of slots; its elements are
  the contents of the slots that are not empty.
\<close>

type_synonym 'a jsset = "'a option list"

fun live :: "'a jsset \<Rightarrow> 'a list" where
  "live [] = []"
| "live (None # slots) = live slots"
| "live (Some x # slots) = x # live slots"

definition Set_add :: "'a jsset \<Rightarrow> 'a \<Rightarrow> 'a jsset" where
  "Set_add slots x = (if Some x \<in> set slots then slots else slots @ [Some x])"

definition Set_delete :: "'a jsset \<Rightarrow> 'a \<Rightarrow> 'a jsset" where
  "Set_delete slots x = map (\<lambda>slot. if slot = Some x then None else slot) slots"

text \<open>
  The step of the iterator: the first slot at index \<open>i\<close> or later that is not empty, with
  its index.
\<close>

fun first_live :: "nat \<Rightarrow> 'a jsset \<Rightarrow> (nat \<times> 'a) option" where
  "first_live j [] = None"
| "first_live j (None # slots) = first_live (Suc j) slots"
| "first_live j (Some x # slots) = Some (j, x)"

definition next_live :: "'a jsset \<Rightarrow> nat \<Rightarrow> (nat \<times> 'a) option" where
  "next_live slots i = first_live i (drop i slots)"

section \<open>The registry\<close>

text \<open>
  Components (\<^verbatim>\<open>ReactiveElement\<close>) and listeners are compared by identity, so both are
  identifiers. An equality function is stored as the function it is; it returns whether
  its result is truthy (\<open>Inr\<close>) or throws (\<open>Inl\<close>), and makes no call into the
  registry. The call \<^verbatim>\<open>element.requestUpdate(target, hint)\<close> is recorded as an event.
\<close>

type_synonym element = nat
type_synonym listener = nat
type_synonym hasChanged_fun = "jsval \<Rightarrow> jsval \<Rightarrow> jsval + bool"

record lit_share =
  values' :: jsobject
  requestUpdates :: "(string \<times> (element \<times> string list) list) list"
  hasChangedFunctions :: "(string \<times> hasChanged_fun) list"
  listeners :: "(string \<times> listener jsset) list"

definition LitShare_init :: lit_share where
  "LitShare_init =
     \<lparr>values' = empty_object, requestUpdates = [], hasChangedFunctions = [], listeners = []\<rparr>"

definition LitShare_findRequestUpdate :: "lit_share \<Rightarrow> string \<Rightarrow> element \<Rightarrow> string list option" where
  "LitShare_findRequestUpdate s key element =
     (case Map_get (requestUpdates s) key of
        Some elementMap \<Rightarrow> Map_get elementMap element
      | None \<Rightarrow> None)"

text \<open>
  \<^verbatim>\<open>register(key, element, target?)\<close>: \<^verbatim>\<open>!target\<close> holds for a missing target and for
  the empty string. An array is truthy, also when empty.
\<close>

definition LitShare_register :: "lit_share \<Rightarrow> string \<Rightarrow> element \<Rightarrow> string option \<Rightarrow> lit_share" where
  "LitShare_register s key element target0 =
     (let target = (case target0 of None \<Rightarrow> key | Some t \<Rightarrow> if t = [] then key else t);
          ru = (if \<not> Map_has (requestUpdates s) key
                then Map_set (requestUpdates s) key []
                else requestUpdates s);
          elementMap = (case Map_get ru key of Some m \<Rightarrow> m | None \<Rightarrow> [])
      in case Map_get elementMap element of
           None \<Rightarrow> s\<lparr>requestUpdates := Map_set ru key (Map_set elementMap element [target])\<rparr>
         | Some targets \<Rightarrow>
             if target \<notin> set targets
             then s\<lparr>requestUpdates := Map_set ru key (Map_set elementMap element (targets @ [target]))\<rparr>
             else s\<lparr>requestUpdates := ru\<rparr>)"

definition LitShare_unregister :: "lit_share \<Rightarrow> string \<Rightarrow> element \<Rightarrow> lit_share" where
  "LitShare_unregister s key element =
     (case Map_get (requestUpdates s) key of
        Some elementMap \<Rightarrow>
          s\<lparr>requestUpdates := Map_set (requestUpdates s) key (Map_delete elementMap element)\<rparr>
      | None \<Rightarrow> s)"

definition LitShare_unregisterElement :: "lit_share \<Rightarrow> element \<Rightarrow> lit_share" where
  "LitShare_unregisterElement s element =
     fold (\<lambda>key s'. LitShare_unregister s' key element) (map fst (requestUpdates s)) s"

definition LitShare_addListener :: "lit_share \<Rightarrow> string \<Rightarrow> listener \<Rightarrow> lit_share" where
  "LitShare_addListener s key l =
     (let ls = (if \<not> Map_has (listeners s) key
                then Map_set (listeners s) key []
                else listeners s);
          listenerSet = (case Map_get ls key of Some x \<Rightarrow> x | None \<Rightarrow> [])
      in s\<lparr>listeners := Map_set ls key (Set_add listenerSet l)\<rparr>)"

definition LitShare_removeListener :: "lit_share \<Rightarrow> string \<Rightarrow> listener \<Rightarrow> lit_share" where
  "LitShare_removeListener s key l =
     (case Map_get (listeners s) key of
        Some listenerSet \<Rightarrow> s\<lparr>listeners := Map_set (listeners s) key (Set_delete listenerSet l)\<rparr>
      | None \<Rightarrow> s)"

text \<open>\<^verbatim>\<open>get(key, defaultValue?)\<close>: a missing default is \<^verbatim>\<open>undefined\<close>.\<close>

definition LitShare_get :: "heap \<Rightarrow> lit_share \<Rightarrow> string \<Rightarrow> jsval option \<Rightarrow> jsval" where
  "LitShare_get h s key defaultValue =
     (if js_in h key (values' s) then js_get h (values' s) key
      else (case defaultValue of Some d \<Rightarrow> d | None \<Rightarrow> Undefined))"

text \<open>
  The decorator \<^verbatim>\<open>share(options)\<close> stores a custom equality function:
  \<^verbatim>\<open>LitShare.hasChangedFunctions.set(shareKey, options.hasChanged)\<close>.
\<close>

definition share_hasChanged :: "lit_share \<Rightarrow> string \<Rightarrow> hasChanged_fun \<Rightarrow> lit_share" where
  "share_hasChanged s shareKey f = s\<lparr>hasChangedFunctions := Map_set (hasChangedFunctions s) shareKey f\<rparr>"

subsection \<open>Calls, listeners and outcomes\<close>

text \<open>The calls a caller, or a listener, can make into the registry.\<close>

datatype operation =
    Register string element "string option"
  | Unregister string element
  | UnregisterElement element
  | AddListener string listener
  | RemoveListener string listener
  | SetValue string jsval "bool option"
  | GetValue string "jsval option"
  | ShareHasChanged string hasChanged_fun

text \<open>
  A listener is code with the registry in scope. What it does when it is called with the
  new and the old value, in the state of the registry it finds, is its reaction: the
  calls it makes into the registry, in order, and then whether it returns or throws. An
  exception of a call it makes passes through the listener. The parameter \<open>cb\<close> of the
  model gives the reaction of every listener.
\<close>

record reaction =
  calls :: "operation list"
  throws :: "jsval option"

type_synonym callbacks = "listener \<Rightarrow> jsval \<Rightarrow> jsval \<Rightarrow> lit_share \<Rightarrow> reaction"

text \<open>What the registry does to the outside: the calls it makes, in order.\<close>

datatype event =
    ListenerCall listener jsval jsval
  | UpdateRequest element string jsval

text \<open>
  A listener may call \<^verbatim>\<open>set\<close> again, and a loop over a set that grows need not end, so a
  run is given an amount of fuel: each call of a listener and each call a listener makes
  uses one unit. The outcome of a run is the state it has reached, the calls to the
  outside it has made, the exception that ended it, if any, and whether it came to its
  end (\<open>finished\<close>) or ran out of fuel before.
\<close>

record outcome =
  state :: lit_share
  trace :: "event list"
  thrown :: "jsval option"
  finished :: bool

definition returned :: "lit_share \<Rightarrow> outcome" where
  "returned s = \<lparr>state = s, trace = [], thrown = None, finished = True\<rparr>"

definition out_of_fuel :: "lit_share \<Rightarrow> outcome" where
  "out_of_fuel s = \<lparr>state = s, trace = [], thrown = None, finished = False\<rparr>"

definition completed :: "outcome \<Rightarrow> bool" where
  "completed out = (finished out \<and> thrown out = None)"

definition after :: "event list \<Rightarrow> outcome \<Rightarrow> outcome" where
  "after evs out = out\<lparr>trace := evs @ trace out\<rparr>"

text \<open>
  \<^verbatim>\<open>requestUpdate(key, oldValue?, force?)\<close>: one call of \<^verbatim>\<open>element.requestUpdate\<close> for
  each target of each element, in the order of the map and of the array.
\<close>

definition LitShare_requestUpdate :: "lit_share \<Rightarrow> string \<Rightarrow> jsval \<Rightarrow> bool option \<Rightarrow> event list" where
  "LitShare_requestUpdate s key oldValue force =
     (case Map_get (requestUpdates s) key of
        Some elementMap \<Rightarrow>
          concat (map (\<lambda>(element, targets).
                    map (\<lambda>target. UpdateRequest element target
                                    (if force = Some True then Undefined else oldValue)) targets)
                  elementMap)
      | None \<Rightarrow> [])"

text \<open>\<^verbatim>\<open>this.hasChangedFunctions.get(key) ?? defaultHasChanged\<close>\<close>

definition hasChanged_for :: "lit_share \<Rightarrow> string \<Rightarrow> hasChanged_fun" where
  "hasChanged_for s key =
     (case Map_get (hasChangedFunctions s) key of
        Some f \<Rightarrow> f
      | None \<Rightarrow> (\<lambda>value oldValue. Inr (defaultHasChanged value oldValue)))"

text \<open>\<^verbatim>\<open>this.listeners.get(key)\<close>: the slots of the listener set, and the listeners in it.\<close>

definition listener_slots :: "lit_share \<Rightarrow> string \<Rightarrow> listener jsset" where
  "listener_slots s key = (case Map_get (listeners s) key of Some listenerSet \<Rightarrow> listenerSet | None \<Rightarrow> [])"

definition listeners_of :: "lit_share \<Rightarrow> string \<Rightarrow> listener list" where
  "listeners_of s key = live (listener_slots s key)"

text \<open>
  \<^verbatim>\<open>set(key, value, force?)\<close>. The flag is optional: \<^verbatim>\<open>!force\<close> holds when it is missing
  or false. The value is stored before the listeners run. \<open>call_listeners\<close> is the loop
  \<^verbatim>\<open>for (const listener of listenerSet) listener(value, oldValue)\<close> from the slot with
  index \<open>i\<close> on: it reads the set anew after every listener. \<open>perform\<close> runs the calls of
  a listener. \<^verbatim>\<open>this.requestUpdate\<close> reads the subscriber table as the listeners left it.
\<close>

function LitShare_set :: "nat \<Rightarrow> callbacks \<Rightarrow> heap \<Rightarrow> lit_share \<Rightarrow> string \<Rightarrow> jsval \<Rightarrow> bool option \<Rightarrow> outcome"
  and call_listeners :: "nat \<Rightarrow> callbacks \<Rightarrow> heap \<Rightarrow> lit_share \<Rightarrow> string \<Rightarrow> jsval \<Rightarrow> jsval \<Rightarrow> nat \<Rightarrow> outcome"
  and perform :: "nat \<Rightarrow> callbacks \<Rightarrow> heap \<Rightarrow> lit_share \<Rightarrow> operation list \<Rightarrow> outcome"
  and apply_op :: "nat \<Rightarrow> callbacks \<Rightarrow> heap \<Rightarrow> operation \<Rightarrow> lit_share \<Rightarrow> outcome"
where
  "LitShare_set n cb h s key value force =
     (let oldValue = js_get h (values' s) key
      in case (if force \<noteq> Some True then hasChanged_for s key value oldValue else Inr True) of
           Inl e \<Rightarrow> \<lparr>state = s, trace = [], thrown = Some e, finished = True\<rparr>
         | Inr False \<Rightarrow> \<lparr>state = s, trace = [], thrown = None, finished = True\<rparr>
         | Inr True \<Rightarrow>
             (let out = call_listeners n cb h (s\<lparr>values' := js_put h (values' s) key value\<rparr>)
                          key value oldValue 0
              in if completed out
                 then out\<lparr>trace := trace out @ LitShare_requestUpdate (state out) key oldValue force\<rparr>
                 else out))"
| "call_listeners n cb h s key value oldValue i =
     (case next_live (listener_slots s key) i of
        None \<Rightarrow> returned s
      | Some (j, l) \<Rightarrow>
          (case n of
             0 \<Rightarrow> out_of_fuel s
           | Suc m \<Rightarrow>
               (let r = cb l value oldValue s;
                    out = after [ListenerCall l value oldValue] (perform m cb h s (calls r))
                in if \<not> completed out then out
                   else case throws r of
                          Some e \<Rightarrow> out\<lparr>thrown := Some e\<rparr>
                        | None \<Rightarrow>
                            after (trace out)
                              (call_listeners m cb h (state out) key value oldValue (Suc j)))))"
| "perform n cb h s [] = returned s"
| "perform n cb h s (opn # ops) =
     (case n of
        0 \<Rightarrow> out_of_fuel s
      | Suc m \<Rightarrow>
          (let out = apply_op m cb h opn s
           in if \<not> completed out then out
              else after (trace out) (perform m cb h (state out) ops)))"
| "apply_op n cb h opn s =
     (case opn of
        Register key element target \<Rightarrow> returned (LitShare_register s key element target)
      | Unregister key element \<Rightarrow> returned (LitShare_unregister s key element)
      | UnregisterElement element \<Rightarrow> returned (LitShare_unregisterElement s element)
      | AddListener key l \<Rightarrow> returned (LitShare_addListener s key l)
      | RemoveListener key l \<Rightarrow> returned (LitShare_removeListener s key l)
      | SetValue key value force \<Rightarrow> LitShare_set n cb h s key value force
      | GetValue key defaultValue \<Rightarrow> returned s
      | ShareHasChanged key f \<Rightarrow> returned (share_hasChanged s key f))"
  by pat_completeness auto
termination
  by (relation "measures
        [case_sum (case_sum (\<lambda>p. fst p) (\<lambda>p. fst p)) (case_sum (\<lambda>p. fst p) (\<lambda>p. fst p)),
         case_sum (case_sum (\<lambda>p. Suc 0) (\<lambda>p. 0)) (case_sum (\<lambda>p. 0) (\<lambda>p. 2))]")
     auto

declare LitShare_set.simps [simp del] call_listeners.simps [simp del] perform.simps [simp del]
  apply_op.simps [simp del]

section \<open>Runs of the registry\<close>

text \<open>
  A caller makes calls one after the other, each with its own fuel, and goes on after a
  call that has thrown.
\<close>

definition run :: "nat \<Rightarrow> callbacks \<Rightarrow> heap \<Rightarrow> operation list \<Rightarrow> lit_share \<Rightarrow> lit_share" where
  "run n cb h ops s = fold (\<lambda>opn s'. state (apply_op n cb h opn s')) ops s"

fun is_set_on :: "string \<Rightarrow> operation \<Rightarrow> bool" where
  "is_set_on k (SetValue key value force) = (key = k)"
| "is_set_on k opn = False"



text \<open>Listeners that make no call into the registry.\<close>

definition silent :: "callbacks \<Rightarrow> bool" where
  "silent cb = (\<forall>l v ov s. calls (cb l v ov s) = [])"

text \<open>The property names under which a component is subscribed to a key.\<close>

definition targets_of :: "lit_share \<Rightarrow> string \<Rightarrow> element \<Rightarrow> string list" where
  "targets_of s key element =
     (case LitShare_findRequestUpdate s key element of Some targets \<Rightarrow> targets | None \<Rightarrow> [])"

text \<open>Every element entry of every key has at least one target.\<close>

definition entries_nonempty :: "(element \<times> string list) list \<Rightarrow> bool" where
  "entries_nonempty elementMap = list_all (\<lambda>(element, targets). targets \<noteq> []) elementMap"

definition all_nonempty :: "(string \<times> (element \<times> string list) list) list \<Rightarrow> bool" where
  "all_nonempty ru = list_all (\<lambda>(key, elementMap). entries_nonempty elementMap) ru"

definition targets_nonempty :: "lit_share \<Rightarrow> bool" where
  "targets_nonempty s = all_nonempty (requestUpdates s)"

text \<open>
  A key that \<^verbatim>\<open>Object.prototype\<close> does not define: neither one of its methods nor its
  accessor \<^verbatim>\<open>__proto__\<close>.
\<close>

definition plain_key :: "string \<Rightarrow> bool" where
  "plain_key k = (k \<noteq> ''__proto__'' \<and> k \<notin> set object_prototype_keys)"

text \<open>The default a call of \<^verbatim>\<open>get\<close> falls back to.\<close>

definition default_of :: "jsval option \<Rightarrow> jsval" where
  "default_of defaultValue = (case defaultValue of Some d \<Rightarrow> d | None \<Rightarrow> Undefined)"

text \<open>
  The slot of a key is ordinary when a write to it creates or overwrites an own property
  of the store: the key is an own property already, or the prototype chain does not lead
  to the accessor \<^verbatim>\<open>__proto__\<close>.
\<close>

definition ordinary_slot :: "heap \<Rightarrow> lit_share \<Rightarrow> string \<Rightarrow> bool" where
  "ordinary_slot h s key =
     (case own (values' s) key of
        Some v \<Rightarrow> True
      | None \<Rightarrow> chain_lookup h (proto (values' s)) key \<noteq> ProtoAccessor)"

text \<open>The store has no own property \<open>k\<close> and still has its first prototype.\<close>

definition untouched :: "string \<Rightarrow> lit_share \<Rightarrow> bool" where
  "untouched k s = (own (values' s) k = None \<and> proto (values' s) = Obj ObjectPrototype)"

text \<open>An environment without further objects, and listeners that make no call and return.\<close>

definition no_objects :: heap where
  "no_objects = (\<lambda>r key. Missing)"

definition no_callbacks :: callbacks where
  "no_callbacks = (\<lambda>l value oldValue s. \<lparr>calls = [], throws = None\<rparr>)"

subsection \<open>Example states\<close>

text \<open>
  Two components read \<^verbatim>\<open>count\<close>, the second one under the property \<^verbatim>\<open>total\<close>; three
  listeners watch it; its value is 0.
\<close>

definition counter :: lit_share where
  "counter = run 5 no_callbacks no_objects
     [Register ''count'' 1 None, Register ''count'' 2 (Some ''total''),
      AddListener ''count'' 7, AddListener ''count'' 8, AddListener ''count'' 9,
      SetValue ''count'' (Num 0) None] LitShare_init"

text \<open>A fresh registry in which component 1 has read \<open>key\<close> and listener 7 watches it.\<close>

definition watched :: "string \<Rightarrow> lit_share" where
  "watched key = run 5 no_callbacks no_objects [Register key 1 None, AddListener key 7] LitShare_init"

text \<open>Listener 8 throws; listener 7 removes listener 9; an equality function that throws.\<close>

definition listener_8_throws :: callbacks where
  "listener_8_throws =
     (\<lambda>l value oldValue s. \<lparr>calls = [], throws = (if l = 8 then Some (Str ''boom'') else None)\<rparr>)"


text \<open>Listener 7 adds listener 10 and subscribes component 3.\<close>

definition listener_7_adds_10 :: callbacks where
  "listener_7_adds_10 =
     (\<lambda>l value oldValue s.
        \<lparr>calls = (if l = 7 then [AddListener ''count'' 10, Register ''count'' 3 None] else []),
         throws = None\<rparr>)"



section \<open>Properties of \<^verbatim>\<open>Map\<close> and \<^verbatim>\<open>Set\<close>\<close>

lemma Map_get_set: "Map_get (Map_set m k v) k' = (if k' = k then Some v else Map_get m k')"
  by (simp add: Map_get_def Map_set_def update_conv')

lemma Map_has_set: "Map_has (Map_set m k v) k' = (k' = k \<or> Map_has m k')"
  by (simp add: Map_has_def Map_set_def update_conv')

lemma Map_has_get: "Map_has m k = (Map_get m k \<noteq> None)"
  by (simp add: Map_has_def Map_get_def)

lemma Map_set_set: "Map_set (Map_set m k v) k w = Map_set m k w"
  by (simp add: Map_set_def)

lemma Map_set_same: "Map_get m k = Some v \<Longrightarrow> Map_set m k v = m"
  by (simp add: Map_get_def Map_set_def update_triv)

lemma set_Map_set: "set (Map_set m k v) \<subseteq> insert (k, v) (set m)"
  unfolding Map_set_def by (induction m) auto

lemma set_Map_delete: "set (Map_delete m k) \<subseteq> set m"
  by (auto simp: Map_delete_def AList.delete_eq)

lemma Map_get_in_set: "Map_get m k = Some v \<Longrightarrow> (k, v) \<in> set m"
  by (simp add: Map_get_def map_of_SomeD)


lemma first_live_None: "first_live k slots = None \<longleftrightarrow> live slots = []"
  by (induction k slots rule: first_live.induct) auto

lemma first_live_Some:
  "first_live k slots = Some (j, x) \<Longrightarrow>
   k \<le> j \<and> live slots = x # live (drop (Suc (j - k)) slots)"
proof (induction k slots rule: first_live.induct)
  case (2 k slots)
  then have le: "Suc k \<le> j" and "live slots = x # live (drop (Suc (j - Suc k)) slots)" by auto
  moreover from le have "Suc (j - Suc k) = j - k" by arith
  ultimately show ?case by simp
qed auto

lemma next_live_None: "next_live slots i = None \<longleftrightarrow> live (drop i slots) = []"
  by (simp add: next_live_def first_live_None)

lemma next_live_Some:
  assumes "next_live slots i = Some (j, x)"
  shows "live (drop i slots) = x # live (drop (Suc j) slots)"
proof -
  from assms have "i \<le> j" and "live (drop i slots) = x # live (drop (Suc (j - i)) (drop i slots))"
    using first_live_Some [of i "drop i slots" j x] by (auto simp: next_live_def)
  then show ?thesis by (simp add: add.commute)
qed

lemma next_live_Cons:
  "live (drop i slots) = x # rest \<Longrightarrow>
   \<exists>j. next_live slots i = Some (j, x) \<and> live (drop (Suc j) slots) = rest"
proof (cases "next_live slots i")
  case None
  assume "live (drop i slots) = x # rest"
  then show ?thesis using None by (simp add: next_live_None)
next
  case (Some p)
  assume a: "live (drop i slots) = x # rest"
  obtain j y where p: "p = (j, y)" by (cases p)
  from next_live_Some [of slots i j y] Some p a show ?thesis by auto
qed


section \<open>Registration\<close>

text \<open>
  Claim C8. \<^verbatim>\<open>register\<close> is idempotent: registering the same key, component and
  property a second time leaves the registry as the first registration left it. The
  function is total, so the call never fails.
\<close>

theorem register_idempotent:
  "LitShare_register (LitShare_register s key element target) key element target =
   LitShare_register s key element target"
  by (simp add: LitShare_register_def Let_def Map_get_set Map_has_set Map_has_get Map_set_set
      Map_set_same split: option.splits)

text \<open>
  What a registration does to the property names of the component: the name is appended
  unless it is there.
\<close>

lemma findRequestUpdate_register:
  "LitShare_findRequestUpdate (LitShare_register s key element target) key element
     = Some (let t = (case target of None \<Rightarrow> key | Some t \<Rightarrow> if t = [] then key else t)
             in if t \<in> set (targets_of s key element) then targets_of s key element
                else targets_of s key element @ [t])"
proof -
  have nil: "Map_get [] element = (None :: string list option)"
    by (simp add: Map_get_def)
  show ?thesis
    by (auto simp add: LitShare_register_def LitShare_findRequestUpdate_def targets_of_def Let_def
        Map_get_set Map_has_set Map_has_get nil split: option.splits)
qed

text \<open>
  Claim C9 says that registering with the empty string as property name subscribes the
  component under the key and not under the empty string. With the empty string as key,
  the key is the empty string, and the component is subscribed under it.
\<close>

theorem register_empty_key_empty_target:
  "LitShare_findRequestUpdate (LitShare_register LitShare_init [] 1 (Some [])) [] 1 = Some [[]]"
  by code_simp

text \<open>
  Claim C9, amended. Registering with the empty string as property name is registering
  without a property name: the two calls leave the same registry, in which the property
  names of the component for the key are those it had, with the key appended unless it
  was among them. When the key is not the empty string, the empty string is among them
  after the call only if it was before.
\<close>

theorem register_empty_target_is_key:
  "LitShare_register s key element (Some []) = LitShare_register s key element None
   \<and> LitShare_findRequestUpdate (LitShare_register s key element (Some [])) key element
       = Some (if key \<in> set (targets_of s key element) then targets_of s key element
               else targets_of s key element @ [key])
   \<and> (key \<noteq> [] \<longrightarrow>
        ([] \<in> set (targets_of (LitShare_register s key element (Some [])) key element)
           \<longleftrightarrow> [] \<in> set (targets_of s key element)))"
proof -
  have same: "LitShare_register s key element (Some []) = LitShare_register s key element None"
    by (simp add: LitShare_register_def)
  have after: "LitShare_findRequestUpdate (LitShare_register s key element (Some [])) key element
       = Some (if key \<in> set (targets_of s key element) then targets_of s key element
               else targets_of s key element @ [key])"
    by (simp add: findRequestUpdate_register)
  then have "key \<noteq> [] \<longrightarrow>
        ([] \<in> set (targets_of (LitShare_register s key element (Some [])) key element)
           \<longleftrightarrow> [] \<in> set (targets_of s key element))"
    by (auto simp: targets_of_def [of "LitShare_register s key element (Some [])"])
  then show ?thesis using same after by blast
qed

theorem register_empty_target_is_key_witness:
  "''count'' \<noteq> []
   \<and> LitShare_findRequestUpdate (LitShare_register counter ''count'' 2 (Some [])) ''count'' 2
       = Some [''total'', ''count'']
   \<and> [] \<notin> set (targets_of (LitShare_register counter ''count'' 2 (Some [])) ''count'' 2)"
proof -
  have a: "''count'' \<noteq> []" by simp
  have b: "targets_of counter ''count'' 2 = [''total'']" by code_simp
  note c = register_empty_target_is_key [of counter "''count''" 2]
  from c [THEN conjunct2, THEN conjunct1]
  have "LitShare_findRequestUpdate (LitShare_register counter ''count'' 2 (Some [])) ''count'' 2
       = Some [''total'', ''count'']"
    by (simp add: b)
  moreover from c [THEN conjunct2, THEN conjunct2] a
  have "[] \<notin> set (targets_of (LitShare_register counter ''count'' 2 (Some [])) ''count'' 2)"
    by (simp add: b)
  ultimately show ?thesis using a by simp
qed

section \<open>The steps of a run\<close>

lemma trace_after [simp]: "trace (after evs out) = evs @ trace out"
  by (simp add: after_def)

lemma state_after [simp]: "state (after evs out) = state out"
  by (simp add: after_def)

lemma thrown_after [simp]: "thrown (after evs out) = thrown out"
  by (simp add: after_def)

lemma finished_after [simp]: "finished (after evs out) = finished out"
  by (simp add: after_def)

lemma completed_after [simp]: "completed (after evs out) = completed out"
  by (simp add: after_def completed_def)

lemma state_returned [simp]: "state (returned s) = s"
  by (simp add: returned_def)

lemma state_out_of_fuel [simp]: "state (out_of_fuel s) = s"
  by (simp add: out_of_fuel_def)

lemma perform_Nil: "perform n cb h s [] = returned s"
  by (simp add: perform.simps)

lemma listener_slots_values [simp]: "listener_slots (s\<lparr>values' := x\<rparr>) key = listener_slots s key"
  by (simp add: listener_slots_def)

lemma listeners_of_values [simp]: "listeners_of (s\<lparr>values' := x\<rparr>) key = listeners_of s key"
  by (simp add: listeners_of_def)

lemma call_listeners_end:
  "live (drop i (listener_slots s key)) = [] \<Longrightarrow> call_listeners n cb h s key v ov i = returned s"
  by (subst call_listeners.simps) (simp add: next_live_None [symmetric])

lemma call_listeners_step:
  assumes "next_live (listener_slots s key) i = Some (j, l)"
  shows "call_listeners (Suc m) cb h s key v ov i =
     (let r = cb l v ov s;
          out = after [ListenerCall l v ov] (perform m cb h s (calls r))
      in if \<not> completed out then out
         else case throws r of
                Some e \<Rightarrow> out\<lparr>thrown := Some e\<rparr>
              | None \<Rightarrow> after (trace out) (call_listeners m cb h (state out) key v ov (Suc j)))"
  by (subst call_listeners.simps) (simp add: assms)

lemma call_listeners_quiet_step:
  assumes "next_live (listener_slots s key) i = Some (j, l)"
    and "cb l v ov s = \<lparr>calls = [], throws = None\<rparr>"
  shows "call_listeners (Suc m) cb h s key v ov i =
           after [ListenerCall l v ov] (call_listeners m cb h s key v ov (Suc j))"
  by (simp add: call_listeners_step [OF assms(1)] assms(2) perform_Nil returned_def after_def
      completed_def)


text \<open>
  The state a run ends in is the state it started in or the state a shorter run ends in.
  So a property of states that the calls other than \<^verbatim>\<open>set\<close> preserve, and that does not
  depend on the stored values, holds after every run, whatever the listeners do.
\<close>

lemma state_set_cases:
  "state (LitShare_set n cb h s key v force) = s
   \<or> state (LitShare_set n cb h s key v force)
       = state (call_listeners n cb h (s\<lparr>values' := js_put h (values' s) key v\<rparr>) key v
                  (js_get h (values' s) key) 0)"
  by (simp add: LitShare_set.simps Let_def split: sum.splits bool.splits)

lemma state_call_listeners_cases:
  "state (call_listeners n cb h s key v ov i) = s
   \<or> (\<exists>m l j. n = Suc m
        \<and> (state (call_listeners n cb h s key v ov i) = state (perform m cb h s (calls (cb l v ov s)))
           \<or> state (call_listeners n cb h s key v ov i)
               = state (call_listeners m cb h (state (perform m cb h s (calls (cb l v ov s))))
                          key v ov (Suc j))))"
  by (subst (1 2 3) call_listeners.simps)
     (auto simp: Let_def split: option.splits nat.splits)

lemma state_perform_cases:
  "state (perform n cb h s ops) = s
   \<or> (\<exists>m opn rest. n = Suc m \<and> ops = opn # rest
        \<and> (state (perform n cb h s ops) = state (apply_op m cb h opn s)
           \<or> state (perform n cb h s ops)
               = state (perform m cb h (state (apply_op m cb h opn s)) rest)))"
  by (cases ops; cases n) (auto simp: perform.simps Let_def)

lemma invariant_run:
  assumes pure: "\<And>n s opn. (\<forall>k v f. opn \<noteq> SetValue k v f) \<Longrightarrow> I s \<Longrightarrow> I (state (apply_op n cb h opn s))"
    and store: "\<And>s x. I s \<Longrightarrow> I (s\<lparr>values' := x\<rparr>)"
  shows "(\<forall>s key v ov i. I s \<longrightarrow> I (state (call_listeners n cb h s key v ov i)))
       \<and> (\<forall>s ops. I s \<longrightarrow> I (state (perform n cb h s ops)))"
proof (induction n)
  case 0
  have "\<And>s key v ov i. state (call_listeners 0 cb h s key v ov i) = s"
    using state_call_listeners_cases [of 0] by auto
  moreover have "\<And>s ops. state (perform 0 cb h s ops) = s"
    using state_perform_cases [of 0] by auto
  ultimately show ?case by simp
next
  case (Suc m)
  have set_m: "I (state (LitShare_set m cb h s key v force))" if "I s" for s key v force
    using state_set_cases [of m cb h s key v force] Suc store that by auto
  have op_m: "I (state (apply_op m cb h opn s))" if "I s" for s opn
  proof (cases "\<exists>k v f. opn = SetValue k v f")
    case True
    then show ?thesis using set_m that by (auto simp: apply_op.simps)
  next
    case False
    then show ?thesis using pure that by simp
  qed
  have loop: "I (state (call_listeners (Suc m) cb h s key v ov i))" if "I s" for s key v ov i
    using state_call_listeners_cases [of "Suc m" cb h s key v ov i] Suc that by auto
  have perf: "I (state (perform (Suc m) cb h s ops))" if "I s" for s ops
    using state_perform_cases [of "Suc m" cb h s ops] Suc op_m that by auto
  show ?case using loop perf by blast
qed

lemma invariant_apply_op:
  assumes pure: "\<And>n s opn. (\<forall>k v f. opn \<noteq> SetValue k v f) \<Longrightarrow> I s \<Longrightarrow> I (state (apply_op n cb h opn s))"
    and store: "\<And>s x. I s \<Longrightarrow> I (s\<lparr>values' := x\<rparr>)"
    and "I s"
  shows "I (state (apply_op n cb h opn s))"
proof (cases "\<exists>k v f. opn = SetValue k v f")
  case True
  then obtain k v f where opn: "opn = SetValue k v f" by blast
  have "I (state (LitShare_set n cb h s k v f))"
    using state_set_cases [of n cb h s k v f] invariant_run [of I cb h n, OF pure store] store assms(3)
    by auto
  then show ?thesis by (simp add: opn apply_op.simps)
next
  case False
  then show ?thesis using pure assms(3) by simp
qed

section \<open>The invariant of the subscriber table\<close>

lemma entries_nonempty_Nil: "entries_nonempty []"
  by (simp add: entries_nonempty_def)

lemma entries_nonempty_set:
  "entries_nonempty m \<Longrightarrow> targets \<noteq> [] \<Longrightarrow> entries_nonempty (Map_set m element targets)"
  using set_Map_set [of m element targets] by (auto simp: entries_nonempty_def list_all_iff)

lemma entries_nonempty_delete:
  "entries_nonempty m \<Longrightarrow> entries_nonempty (Map_delete m element)"
  using set_Map_delete [of m element] by (auto simp: entries_nonempty_def list_all_iff)

lemma all_nonempty_set:
  "all_nonempty ru \<Longrightarrow> entries_nonempty m \<Longrightarrow> all_nonempty (Map_set ru key m)"
  using set_Map_set [of ru key m] by (auto simp: all_nonempty_def list_all_iff)

lemma all_nonempty_get:
  "all_nonempty ru \<Longrightarrow> Map_get ru key = Some m \<Longrightarrow> entries_nonempty m"
  by (auto simp: all_nonempty_def list_all_iff dest!: Map_get_in_set)

lemma targets_nonempty_register:
  assumes "targets_nonempty s"
  shows "targets_nonempty (LitShare_register s key element target)"
proof -
  define ru where "ru = (if \<not> Map_has (requestUpdates s) key
                then Map_set (requestUpdates s) key [] else requestUpdates s)"
  define elementMap where "elementMap = (case Map_get ru key of Some m \<Rightarrow> m | None \<Rightarrow> [])"
  have ru: "all_nonempty ru"
    using assms by (simp add: ru_def all_nonempty_set entries_nonempty_Nil targets_nonempty_def)
  have em: "entries_nonempty elementMap"
    using ru by (auto simp: elementMap_def entries_nonempty_Nil all_nonempty_get split: option.splits)
  have "all_nonempty (requestUpdates (LitShare_register s key element target))"
    using ru em
    by (auto simp: LitShare_register_def Let_def ru_def [symmetric] elementMap_def [symmetric]
        intro!: all_nonempty_set entries_nonempty_set split: option.splits)
  then show ?thesis by (simp add: targets_nonempty_def)
qed

lemma targets_nonempty_unregister:
  assumes "targets_nonempty s"
  shows "targets_nonempty (LitShare_unregister s key element)"
  using assms
  by (auto simp: LitShare_unregister_def targets_nonempty_def
      intro!: all_nonempty_set entries_nonempty_delete dest: all_nonempty_get split: option.splits)

lemma targets_nonempty_fold_unregister:
  "targets_nonempty s \<Longrightarrow>
   targets_nonempty (fold (\<lambda>key s'. LitShare_unregister s' key element) keys s)"
  by (induction keys arbitrary: s) (simp_all add: targets_nonempty_unregister)

lemma targets_nonempty_unregisterElement:
  "targets_nonempty s \<Longrightarrow> targets_nonempty (LitShare_unregisterElement s element)"
  by (simp add: LitShare_unregisterElement_def targets_nonempty_fold_unregister)

lemma requestUpdates_addListener:
  "requestUpdates (LitShare_addListener s key l) = requestUpdates s"
  by (simp add: LitShare_addListener_def Let_def)

lemma requestUpdates_removeListener:
  "requestUpdates (LitShare_removeListener s key l) = requestUpdates s"
  by (simp add: LitShare_removeListener_def split: option.splits)

lemma requestUpdates_share: "requestUpdates (share_hasChanged s key f) = requestUpdates s"
  by (simp add: share_hasChanged_def)

lemma targets_nonempty_cong:
  "requestUpdates s' = requestUpdates s \<Longrightarrow> targets_nonempty s' = targets_nonempty s"
  by (simp add: targets_nonempty_def)

lemma targets_nonempty_init: "targets_nonempty LitShare_init"
  by (simp add: targets_nonempty_def all_nonempty_def LitShare_init_def)

lemma targets_nonempty_pure:
  "(\<forall>k v f. opn \<noteq> SetValue k v f) \<Longrightarrow> targets_nonempty s \<Longrightarrow>
   targets_nonempty (state (apply_op n cb h opn s))"
  by (cases opn)
     (simp_all add: apply_op.simps targets_nonempty_register targets_nonempty_unregister
        targets_nonempty_unregisterElement
        targets_nonempty_cong [OF requestUpdates_addListener]
        targets_nonempty_cong [OF requestUpdates_removeListener]
        targets_nonempty_cong [OF requestUpdates_share])

text \<open>
  Claim C7. Every operation of the registry preserves the invariant of the subscriber
  table: under every key, every component entry has a non-empty list of property names.
  This holds with any amount of fuel and for any listeners, also for those that call
  back into the registry during a \<^verbatim>\<open>set\<close>.
\<close>

theorem targets_nonempty_preserved:
  "targets_nonempty s \<Longrightarrow> targets_nonempty (state (apply_op n cb h opn s))"
proof (rule invariant_apply_op [where I = targets_nonempty])
  show "targets_nonempty (state (apply_op n cb h opn s))"
    if "\<forall>k v f. opn \<noteq> SetValue k v f" "targets_nonempty s" for n s opn
    using that by (rule targets_nonempty_pure)
  show "targets_nonempty (s\<lparr>values' := x\<rparr>)" if "targets_nonempty s" for s x
    using that by (simp add: targets_nonempty_def)
qed

theorem targets_nonempty_preserved_witness:
  "targets_nonempty counter
   \<and> targets_nonempty
       (state (apply_op 10 listener_7_adds_10 no_objects (SetValue ''count'' (Num 1) None) counter))"
proof -
  have inv: "targets_nonempty counter" by code_simp
  show ?thesis
    using inv targets_nonempty_preserved [OF inv, of 10 listener_7_adds_10 no_objects
        "SetValue ''count'' (Num 1) None"]
    by simp
qed

section \<open>Writes\<close>

text \<open>
  Claim C4. When the flag \<^verbatim>\<open>force\<close> is not true and the equality function in effect
  for the key reports no change of the value against the current old value, \<^verbatim>\<open>set\<close> does
  nothing: the registry is left as it was (value and all maps), no listener is called,
  no update is requested, nothing is thrown, and the call returns.
\<close>

theorem set_unchanged_no_effect:
  assumes "force \<noteq> Some True"
    and "hasChanged_for s key value (js_get h (values' s) key) = Inr False"
  shows "LitShare_set n cb h s key value force
           = \<lparr>state = s, trace = [], thrown = None, finished = True\<rparr>"
  using assms by (simp add: LitShare_set.simps)

theorem set_unchanged_no_effect_witness:
  "(None :: bool option) \<noteq> Some True
   \<and> hasChanged_for counter ''count'' (Num 0) (js_get no_objects (values' counter) ''count'') = Inr False
   \<and> LitShare_set 10 listener_8_throws no_objects counter ''count'' (Num 0) None
       = \<lparr>state = counter, trace = [], thrown = None, finished = True\<rparr>"
proof -
  have a: "(None :: bool option) \<noteq> Some True" by simp
  have b: "hasChanged_for counter ''count'' (Num 0) (js_get no_objects (values' counter) ''count'')
             = Inr False"
    by code_simp
  show ?thesis
    using a b set_unchanged_no_effect [OF a b, of 10 listener_8_throws] by simp
qed

subsection \<open>Listeners that make no call\<close>


lemma call_listeners_quiet_all:
  assumes "live (drop i (listener_slots s key)) = ls"
    and "\<forall>l\<in>set ls. cb l v ov s = \<lparr>calls = [], throws = None\<rparr>"
    and "length ls \<le> n"
  shows "call_listeners n cb h s key v ov i =
           \<lparr>state = s, trace = map (\<lambda>l. ListenerCall l v ov) ls, thrown = None, finished = True\<rparr>"
  using assms
proof (induction ls arbitrary: i n)
  case Nil
  then show ?case by (simp add: call_listeners_end returned_def)
next
  case (Cons b ls)
  then obtain m where n: "n = Suc m" by (cases n) auto
  from Cons.prems(1) obtain j where j: "next_live (listener_slots s key) i = Some (j, b)"
    "live (drop (Suc j) (listener_slots s key)) = ls"
    using next_live_Cons [of i "listener_slots s key" b ls] by auto
  have "call_listeners m cb h s key v ov (Suc j) =
          \<lparr>state = s, trace = map (\<lambda>l. ListenerCall l v ov) ls, thrown = None, finished = True\<rparr>"
    using Cons.IH [OF j(2)] Cons.prems n by simp
  then show ?case
    using j(1) Cons.prems(2) n by (simp add: call_listeners_quiet_step after_def)
qed

lemma set_accepted_quiet:
  assumes "force = Some True \<or> hasChanged_for s key v (js_get h (values' s) key) = Inr True"
    and "\<forall>l\<in>set (listeners_of s key).
           cb l v (js_get h (values' s) key) (s\<lparr>values' := js_put h (values' s) key v\<rparr>)
             = \<lparr>calls = [], throws = None\<rparr>"
    and "length (listeners_of s key) \<le> n"
  shows "LitShare_set n cb h s key v force =
           \<lparr>state = s\<lparr>values' := js_put h (values' s) key v\<rparr>,
            trace = map (\<lambda>l. ListenerCall l v (js_get h (values' s) key)) (listeners_of s key)
                    @ LitShare_requestUpdate s key (js_get h (values' s) key) force,
            thrown = None, finished = True\<rparr>"
proof -
  let ?old = "js_get h (values' s) key"
  let ?s1 = "s\<lparr>values' := js_put h (values' s) key v\<rparr>"
  have "live (drop 0 (listener_slots ?s1 key)) = listeners_of s key"
    by (simp add: listeners_of_def)
  then have loop: "call_listeners n cb h ?s1 key v ?old 0 =
      \<lparr>state = ?s1, trace = map (\<lambda>l. ListenerCall l v ?old) (listeners_of s key), thrown = None,
       finished = True\<rparr>"
    using assms(2,3) by (rule call_listeners_quiet_all)
  show ?thesis
    using assms(1) by (auto simp: LitShare_set.simps Let_def loop completed_def LitShare_requestUpdate_def)
qed

subsection \<open>The order of notifications\<close>














subsection \<open>Callbacks that throw\<close>



section \<open>Reads and writes through the prototype chain\<close>

text \<open>
  Claim C1 says that \<^verbatim>\<open>get(k, d)\<close> returns \<open>d\<close> for every key that was never written,
  without exception. In the fresh registry nothing was written, and \<^verbatim>\<open>"toString" in values\<close>
  holds all the same, because the store inherits that property from \<^verbatim>\<open>Object.prototype\<close>:
  \<^verbatim>\<open>get("toString", 0)\<close> returns the inherited method, not the default 0.
\<close>

theorem get_inherited_key:
  "LitShare_get no_objects LitShare_init ''toString'' (Some (Num 0)) = Obj (Builtin ''toString'')"
  by code_simp

text \<open>
  Claim C2 says that \<^verbatim>\<open>get(k)\<close> returns \<open>v\<close> after \<^verbatim>\<open>set(k, v)\<close>, for every key. The
  assignment \<^verbatim>\<open>values["__proto__"] = 5\<close> runs the inherited setter, which ignores a value
  that is neither an object nor \<^verbatim>\<open>null\<close>; the following \<^verbatim>\<open>get("__proto__")\<close> returns
  \<^verbatim>\<open>Object.prototype\<close>, not 5.
\<close>

theorem set_proto_key_then_get:
  "LitShare_get no_objects
     (state (LitShare_set 5 no_callbacks no_objects LitShare_init ''__proto__'' (Num 5) None))
     ''__proto__'' None = Obj ObjectPrototype"
  by code_simp

text \<open>
  Claim C3 says that the default equality reports a change exactly when the values are
  not strictly equal and not both NaN (lemma \<open>defaultHasChanged_iff\<close> below), and that
  therefore a second \<^verbatim>\<open>set(k, NaN)\<close> notifies nobody. Under the key \<^verbatim>\<open>__proto__\<close> the first
  NaN is never stored, the old value of the second call is \<^verbatim>\<open>Object.prototype\<close> again,
  and the second call notifies the listener and the component.
\<close>

theorem set_NaN_twice_proto_key:
  "trace (LitShare_set 5 no_callbacks no_objects
            (state (LitShare_set 5 no_callbacks no_objects (watched ''__proto__'') ''__proto__'' NaN None))
            ''__proto__'' NaN None)
     = [ListenerCall 7 NaN (Obj ObjectPrototype), UpdateRequest 1 ''__proto__'' (Obj ObjectPrototype)]"
  by code_simp

text \<open>
  Claim C10 says that \<^verbatim>\<open>set(k, undefined)\<close> on a key never written, with the default
  equality and without force, does nothing, and that \<^verbatim>\<open>get(k, d)\<close> returns \<open>d\<close>
  afterwards. For the key \<^verbatim>\<open>toString\<close> the old value is the inherited method, so the
  write is accepted: the listener and the component are notified, and
  \<^verbatim>\<open>get("toString", 0)\<close> returns \<^verbatim>\<open>undefined\<close> afterwards.
\<close>

theorem set_undefined_inherited_key:
  "trace (LitShare_set 5 no_callbacks no_objects (watched ''toString'') ''toString'' Undefined None)
     = [ListenerCall 7 Undefined (Obj (Builtin ''toString'')),
        UpdateRequest 1 ''toString'' (Obj (Builtin ''toString''))]
   \<and> LitShare_get no_objects
        (state (LitShare_set 5 no_callbacks no_objects (watched ''toString'') ''toString'' Undefined None))
        ''toString'' (Some (Num 0)) = Undefined"
  by code_simp

section \<open>Keys that \<^verbatim>\<open>Object.prototype\<close> does not define\<close>

text \<open>
  Away from the inherited properties, and with listeners that make no call into the
  registry, the registry behaves as a dictionary. The lemmas of this section state that
  for the four properties above.
\<close>

subsection \<open>The default equality\<close>

lemma defaultHasChanged_iff:
  "defaultHasChanged v ov \<longleftrightarrow> \<not> strict_eq v ov \<and> \<not> (v = NaN \<and> ov = NaN)"
  by (auto simp: defaultHasChanged_def strict_eq_def)

lemma defaultHasChanged_neq: "defaultHasChanged v ov \<longleftrightarrow> v \<noteq> ov"
  by (auto simp: defaultHasChanged_def strict_eq_def)

lemma hasChanged_for_default:
  "Map_get (hasChangedFunctions s) key = None \<Longrightarrow>
   hasChanged_for s key v ov = Inr (v \<noteq> ov)"
  by (simp add: hasChanged_for_def defaultHasChanged_neq)

subsection \<open>Ordinary slots\<close>

lemma js_put_ordinary:
  "ordinary_slot h s key \<Longrightarrow>
   js_put h (values' s) key v = (values' s)\<lparr>own := (own (values' s))(key \<mapsto> v)\<rparr>"
  by (auto simp: ordinary_slot_def js_put_def split: option.splits found.splits)

lemma get_after_put:
  "ordinary_slot h s key \<Longrightarrow>
   LitShare_get h (s\<lparr>values' := js_put h (values' s) key v\<rparr>) key d = v"
  by (simp add: js_put_ordinary LitShare_get_def js_in_def js_get_def)

lemma get_unchanged:
  "js_get h (values' s) key = v \<Longrightarrow> LitShare_get h s key None = v"
  by (auto simp: LitShare_get_def js_in_def js_get_def split: option.splits found.splits)

lemma state_call_listeners_silent:
  "silent cb \<Longrightarrow> state (call_listeners n cb h s key v ov i) = s"
proof (induction n arbitrary: i)
  case 0
  show ?case
    by (subst call_listeners.simps) (simp split: option.splits)
next
  case (Suc m)
  show ?case
  proof (cases "next_live (listener_slots s key) i")
    case None
    then show ?thesis by (simp add: call_listeners_end next_live_None)
  next
    case (Some p)
    obtain j l where "p = (j, l)" by (cases p)
    with Some have nl: "next_live (listener_slots s key) i = Some (j, l)" by simp
    have "calls (cb l v ov s) = []" using Suc.prems by (simp add: silent_def)
    then show ?thesis
      using Suc.IH [OF Suc.prems, of "Suc j"]
      by (simp add: call_listeners_step [OF nl] Let_def perform_Nil split: option.splits)
  qed
qed

lemma state_set:
  "silent cb \<Longrightarrow>
   state (LitShare_set n cb h s key v force) =
     (case (if force \<noteq> Some True then hasChanged_for s key v (js_get h (values' s) key) else Inr True) of
        Inr True \<Rightarrow> s\<lparr>values' := js_put h (values' s) key v\<rparr>
      | _ \<Rightarrow> s)"
  by (simp add: LitShare_set.simps Let_def state_call_listeners_silent split: sum.splits bool.splits)

lemma set_then_get_ordinary:
  assumes "silent cb"
    and "Map_get (hasChangedFunctions s) key = None" and "ordinary_slot h s key"
  shows "LitShare_get h (state (LitShare_set n cb h s key v force)) key None = v"
proof (cases "force = Some True \<or> v \<noteq> js_get h (values' s) key")
  case True
  then have "state (LitShare_set n cb h s key v force) = s\<lparr>values' := js_put h (values' s) key v\<rparr>"
    using assms(1,2) by (auto simp: state_set hasChanged_for_default)
  then show ?thesis using assms(3) by (simp add: get_after_put)
next
  case False
  then have "state (LitShare_set n cb h s key v force) = s"
    using assms(1,2) by (auto simp: state_set hasChanged_for_default)
  then show ?thesis using False by (simp add: get_unchanged)
qed

lemma ordinary_slot_plain:
  "proto (values' s) = Obj ObjectPrototype \<Longrightarrow> key \<noteq> ''__proto__'' \<Longrightarrow> ordinary_slot h s key"
  by (simp add: ordinary_slot_def split: option.splits)

lemma trace_set_unchanged:
  "Map_get (hasChangedFunctions s) key = None \<Longrightarrow> force \<noteq> Some True \<Longrightarrow>
   js_get h (values' s) key = v \<Longrightarrow>
   LitShare_set n cb h s key v force = \<lparr>state = s, trace = [], thrown = None, finished = True\<rparr>"
  by (simp add: LitShare_set.simps hasChanged_for_default)

lemma js_get_after_set_ordinary:
  assumes "silent cb"
    and "Map_get (hasChangedFunctions s) key = None" and "ordinary_slot h s key"
  shows "js_get h (values' (state (LitShare_set n cb h s key v force))) key = v"
proof (cases "force = Some True \<or> v \<noteq> js_get h (values' s) key")
  case True
  then have "state (LitShare_set n cb h s key v force) = s\<lparr>values' := js_put h (values' s) key v\<rparr>"
    using assms(1,2) by (auto simp: state_set hasChanged_for_default)
  then show ?thesis using assms(3) by (simp add: js_put_ordinary js_get_def)
next
  case False
  then have "state (LitShare_set n cb h s key v force) = s"
    using assms(1,2) by (auto simp: state_set hasChanged_for_default)
  then show ?thesis using False by simp
qed

lemma hasChangedFunctions_set:
  "silent cb \<Longrightarrow> hasChangedFunctions (state (LitShare_set n cb h s key v force)) = hasChangedFunctions s"
  by (simp add: state_set split: sum.splits bool.splits)

lemma set_same_twice_ordinary:
  assumes "silent cb"
    and "Map_get (hasChangedFunctions s) key = None" and "ordinary_slot h s key"
  shows "LitShare_set n' cb' h (state (LitShare_set n cb h s key v None)) key v None
           = \<lparr>state = state (LitShare_set n cb h s key v None), trace = [], thrown = None,
              finished = True\<rparr>"
  by (rule trace_set_unchanged)
     (simp_all add: hasChangedFunctions_set assms js_get_after_set_ordinary)

lemma set_changed_all_listeners:
  assumes "Map_get (hasChangedFunctions s) key = None"
    and "js_get h (values' s) key \<noteq> v"
    and "\<forall>l\<in>set (listeners_of s key).
           cb l v (js_get h (values' s) key) (s\<lparr>values' := js_put h (values' s) key v\<rparr>)
             = \<lparr>calls = [], throws = None\<rparr>"
    and "length (listeners_of s key) \<le> n"
  shows "trace (LitShare_set n cb h s key v force)
           = map (\<lambda>l. ListenerCall l v (js_get h (values' s) key)) (listeners_of s key)
             @ LitShare_requestUpdate s key (js_get h (values' s) key) force"
proof -
  have "force = Some True \<or> hasChanged_for s key v (js_get h (values' s) key) = Inr True"
    using assms(1,2) by (auto simp: hasChanged_for_default)
  then have "LitShare_set n cb h s key v force =
           \<lparr>state = s\<lparr>values' := js_put h (values' s) key v\<rparr>,
            trace = map (\<lambda>l. ListenerCall l v (js_get h (values' s) key)) (listeners_of s key)
                    @ LitShare_requestUpdate s key (js_get h (values' s) key) force,
            thrown = None, finished = True\<rparr>"
    using assms(3,4) by (rule set_accepted_quiet)
  then show ?thesis by simp
qed

subsection \<open>Keys never written\<close>

lemma values_register: "values' (LitShare_register s key element target) = values' s"
  by (simp add: LitShare_register_def Let_def split: option.splits)

lemma values_unregister: "values' (LitShare_unregister s key element) = values' s"
  by (simp add: LitShare_unregister_def split: option.splits)

lemma values_fold_unregister:
  "values' (fold (\<lambda>key s'. LitShare_unregister s' key element) keys s) = values' s"
  by (induction keys arbitrary: s) (simp_all add: values_unregister)

lemma values_unregisterElement: "values' (LitShare_unregisterElement s element) = values' s"
  by (simp add: LitShare_unregisterElement_def values_fold_unregister)

lemma values_addListener: "values' (LitShare_addListener s key l) = values' s"
  by (simp add: LitShare_addListener_def Let_def)

lemma values_removeListener: "values' (LitShare_removeListener s key l) = values' s"
  by (simp add: LitShare_removeListener_def split: option.splits)

lemma values_share: "values' (share_hasChanged s key f) = values' s"
  by (simp add: share_hasChanged_def)

lemma untouched_apply_op:
  assumes "silent cb"
    and "untouched k s" and "\<not> is_set_on k opn" and "\<not> is_set_on ''__proto__'' opn"
  shows "untouched k (state (apply_op n cb h opn s))"
proof (cases opn)
  case (SetValue key v force)
  then have "ordinary_slot h s key"
    using assms by (simp add: ordinary_slot_plain untouched_def)
  then show ?thesis
    using assms SetValue
    by (auto simp: apply_op.simps untouched_def state_set js_put_ordinary split: sum.splits bool.splits)
qed (use assms in \<open>simp_all add: apply_op.simps untouched_def values_register values_unregister
      values_unregisterElement values_addListener values_removeListener values_share\<close>)

lemma untouched_run:
  "silent cb \<Longrightarrow> untouched k s \<Longrightarrow> \<not> list_ex (is_set_on k) ops \<Longrightarrow>
   \<not> list_ex (is_set_on ''__proto__'') ops \<Longrightarrow> untouched k (run n cb h ops s)"
  unfolding run_def
  by (induction ops arbitrary: s) (simp_all add: untouched_apply_op)

lemma untouched_init: "untouched k LitShare_init"
  by (simp add: untouched_def LitShare_init_def empty_object_def)

lemma get_untouched:
  "untouched k s \<Longrightarrow> plain_key k \<Longrightarrow> LitShare_get h s k d = default_of d"
  by (simp add: untouched_def plain_key_def LitShare_get_def js_in_def default_of_def)

lemma get_never_set:
  assumes "silent cb" and "plain_key k"
    and "\<not> list_ex (is_set_on k) ops" and "\<not> list_ex (is_set_on ''__proto__'') ops"
  shows "LitShare_get h (run n cb h ops LitShare_init) k d = default_of d"
  using assms by (simp add: get_untouched untouched_run untouched_init)

lemma js_get_untouched: "untouched k s \<Longrightarrow> plain_key k \<Longrightarrow> js_get h (values' s) k = Undefined"
  by (simp add: untouched_def plain_key_def js_get_def)

lemma set_undefined_never_set:
  assumes "silent cb" and "plain_key k"
    and "\<not> list_ex (is_set_on k) ops" and "\<not> list_ex (is_set_on ''__proto__'') ops"
    and "Map_get (hasChangedFunctions (run n cb h ops LitShare_init)) k = None"
    and "force \<noteq> Some True"
  shows "LitShare_set n' cb' h (run n cb h ops LitShare_init) k Undefined force
           = \<lparr>state = run n cb h ops LitShare_init, trace = [], thrown = None, finished = True\<rparr>"
  using assms
  by (intro trace_set_unchanged js_get_untouched untouched_run untouched_init)

end
